theory Spec2Isabelle
  imports Complex_Main
begin

section \<open>The rank-demand model and the keyword scorer of kdp-auditor-backend\<close>

text \<open>
  A shallow embedding of \<^verbatim>\<open>services/bsr_calculator.py\<close> (class \<^verbatim>\<open>BSRCalculator\<close>) and
  of the volume heuristic and the freshness predicate of
  \<^verbatim>\<open>services/keyword_service.py\<close> (class \<^verbatim>\<open>KeywordService\<close>).

  Conventions of the embedding:
  \<^item> Python's unbounded \<^verbatim>\<open>int\<close> is \<open>int\<close>.
  \<^item> Python's \<^verbatim>\<open>float\<close> is idealised as \<open>real\<close>: \<^verbatim>\<open>math.log10\<close> is \<open>log 10\<close>,
    \<^verbatim>\<open>x ** y\<close> is \<open>x powr y\<close>, \<^verbatim>\<open>/\<close> is real division, and no operation rounds to
    binary64. Results that hinge on the last binary digit (a value that sits exactly on a
    rounding tie) are therefore stated so that they hold for either outcome of the tie.
  \<^item> A \<^verbatim>\<open>dict\<close> is an association list with distinct keys, in the order of the literal.
  \<^item> An exception is a value \<open>Inl e\<close> of the sum type \<open>error + 'a\<close>; a
    \<^verbatim>\<open>try/except Exception\<close> is a case distinction on it.
  \<^item> The clock read by \<^verbatim>\<open>datetime.utcnow()\<close> and the draw of
    \<^verbatim>\<open>random.uniform\<close> are explicit parameters.
\<close>

subsection \<open>Python primitives\<close>

datatype error = IndexError | KeyError | ValueError | ZeroDivisionError | TypeError

text \<open>\<^verbatim>\<open>d[k]\<close> raises \<^verbatim>\<open>KeyError\<close> on a missing key; \<^verbatim>\<open>d.get(k, default)\<close> does not.\<close>

definition dict_item :: "('k \<times> 'v) list \<Rightarrow> 'k \<Rightarrow> error + 'v" where
  "dict_item d k = (case map_of d k of None \<Rightarrow> Inl KeyError | Some v \<Rightarrow> Inr v)"

definition dict_get :: "('k \<times> 'v) list \<Rightarrow> 'k \<Rightarrow> 'v \<Rightarrow> 'v" where
  "dict_get d k dflt = (case map_of d k of None \<Rightarrow> dflt | Some v \<Rightarrow> v)"

text \<open>
  \<^verbatim>\<open>round(x, 2)\<close> on a float: the nearest multiple of \<open>0.01\<close>, a tie going to the even
  last digit.
\<close>

definition py_round2 :: "real \<Rightarrow> real" where
  "py_round2 x =
     (let y = x * 100; f = \<lfloor>y\<rfloor>; d = y - of_int f
      in (if d < 1 / 2 then of_int f
          else if 1 / 2 < d then of_int (f + 1)
          else if even f then of_int f else of_int (f + 1)) / 100)"


subsection \<open>The calibration tables (\<^verbatim>\<open>BSRCalculator.__init__\<close>)\<close>

type_synonym conversion_table = "(int \<times> real) list"

definition com_ebook :: conversion_table where
  "com_ebook = [(1, 5000), (10, 1500), (100, 300), (1000, 50), (10000, 8),
                (100000, 1), (1000000, 1 / 10)]"

definition com_paperback :: conversion_table where
  "com_paperback = [(1, 2000), (10, 600), (100, 120), (1000, 20), (10000, 3),
                    (100000, 5 / 10), (1000000, 5 / 100)]"

definition com_hardcover :: conversion_table where
  "com_hardcover = [(1, 1000), (10, 300), (100, 60), (1000, 10), (10000, 15 / 10),
                    (100000, 25 / 100), (1000000, 25 / 1000)]"

definition uk_ebook :: conversion_table where
  "uk_ebook = [(1, 1500), (10, 450), (100, 90), (1000, 15), (10000, 24 / 10),
               (100000, 3 / 10), (1000000, 3 / 100)]"

definition uk_paperback :: conversion_table where
  "uk_paperback = [(1, 600), (10, 180), (100, 36), (1000, 6), (10000, 9 / 10),
                   (100000, 15 / 100), (1000000, 15 / 1000)]"

definition uk_hardcover :: conversion_table where
  "uk_hardcover = [(1, 300), (10, 90), (100, 18), (1000, 3), (10000, 45 / 100),
                   (100000, 75 / 1000), (1000000, 75 / 10000)]"

definition conversion_tables :: "(string \<times> (string \<times> conversion_table) list) list" where
  "conversion_tables =
     [(''amazon.com'',
         [(''ebook'', com_ebook), (''paperback'', com_paperback), (''hardcover'', com_hardcover)]),
      (''amazon.co.uk'',
         [(''ebook'', uk_ebook), (''paperback'', uk_paperback), (''hardcover'', uk_hardcover)])]"

text \<open>
  The table selection shared by \<^verbatim>\<open>calculate_sales_estimates\<close> and
  \<^verbatim>\<open>get_bsr_for_target_sales\<close>:
  \<^verbatim>\<open>
  marketplace_table = self.conversion_tables.get(marketplace, self.conversion_tables['amazon.com'])
  book_type_table = marketplace_table.get(book_type, marketplace_table['ebook'])
  \<close>
\<close>

definition select_table :: "string \<Rightarrow> string \<Rightarrow> error + conversion_table" where
  "select_table book_type marketplace =
     (case dict_item conversion_tables ''amazon.com'' of
        Inl e \<Rightarrow> Inl e
      | Inr default_market \<Rightarrow>
          (let marketplace_table = dict_get conversion_tables marketplace default_market
           in case dict_item marketplace_table ''ebook'' of
                Inl e \<Rightarrow> Inl e
              | Inr default_type \<Rightarrow> Inr (dict_get marketplace_table book_type default_type)))"

subsection \<open>Interpolation (\<^verbatim>\<open>_interpolate_sales\<close> and the two extrapolations)\<close>

text \<open>
  \<^verbatim>\<open>ratio = known_bsr / bsr; return known_sales * (ratio ** 0.7)\<close>. A negative base under a
  fractional exponent yields a \<^verbatim>\<open>complex\<close> in Python, which both callers turn into a
  \<^verbatim>\<open>TypeError\<close> (in \<^verbatim>\<open>round\<close>, or in the comparison with the target); the model
  raises it at the power.
\<close>

definition extrapolate_high_performance :: "int \<Rightarrow> int \<Rightarrow> real \<Rightarrow> error + real" where
  "extrapolate_high_performance bsr known_bsr known_sales =
     (if bsr = 0 then Inl ZeroDivisionError
      else let ratio = real_of_int known_bsr / real_of_int bsr
           in if ratio < 0 then Inl TypeError
              else Inr (known_sales * (ratio powr (7 / 10))))"

text \<open>\<^verbatim>\<open>ratio = bsr / known_bsr; return known_sales / (ratio ** 0.8)\<close>\<close>

definition extrapolate_low_performance :: "int \<Rightarrow> int \<Rightarrow> real \<Rightarrow> error + real" where
  "extrapolate_low_performance bsr known_bsr known_sales =
     (if known_bsr = 0 then Inl ZeroDivisionError
      else let ratio = real_of_int bsr / real_of_int known_bsr
           in if ratio < 0 then Inl TypeError
              else if ratio powr (8 / 10) = 0 then Inl ZeroDivisionError
              else Inr (known_sales / (ratio powr (8 / 10))))"

text \<open>
  The body of the bracket found by the loop: the interpolation in log-log space.
  \<^verbatim>\<open>math.log10\<close> raises \<^verbatim>\<open>ValueError\<close> on a non-positive argument; the sales are
  floored at \<open>0.001\<close> before their logarithm is taken.
\<close>

definition log_interpolate :: "int \<Rightarrow> int \<Rightarrow> int \<Rightarrow> real \<Rightarrow> real \<Rightarrow> error + real" where
  "log_interpolate bsr lower_bsr upper_bsr lower_sales upper_sales =
     (if bsr \<le> 0 \<or> lower_bsr \<le> 0 \<or> upper_bsr \<le> 0 then Inl ValueError
      else let log_bsr = log 10 (real_of_int bsr);
               log_lower = log 10 (real_of_int lower_bsr);
               log_upper = log 10 (real_of_int upper_bsr)
           in if log_upper - log_lower = 0 then Inl ZeroDivisionError
              else let ratio = (log_bsr - log_lower) / (log_upper - log_lower);
                       log_lower_sales = log 10 (max lower_sales (1 / 1000));
                       log_upper_sales = log 10 (max upper_sales (1 / 1000));
                       log_sales = log_lower_sales + ratio * (log_upper_sales - log_lower_sales)
                   in Inr (10 powr log_sales))"

text \<open>
  \<^verbatim>\<open>for i in range(len(bsr_points) - 1)\<close>: the first pair of neighbouring points that
  brackets \<open>bsr\<close> decides; when no pair does, the function falls through to
  \<^verbatim>\<open>return 0.0\<close>.
\<close>

fun interpolate_loop :: "int \<Rightarrow> conversion_table \<Rightarrow> int list \<Rightarrow> error + real" where
  "interpolate_loop bsr tbl (lower_bsr # upper_bsr # rest) =
     (if lower_bsr \<le> bsr \<and> bsr \<le> upper_bsr then
        (case dict_item tbl lower_bsr of
           Inl e \<Rightarrow> Inl e
         | Inr lower_sales \<Rightarrow>
             (case dict_item tbl upper_bsr of
                Inl e \<Rightarrow> Inl e
              | Inr upper_sales \<Rightarrow>
                  log_interpolate bsr lower_bsr upper_bsr lower_sales upper_sales))
      else interpolate_loop bsr tbl (upper_bsr # rest))"
| "interpolate_loop bsr tbl _ = Inr 0"

definition interpolate_sales :: "int \<Rightarrow> conversion_table \<Rightarrow> error + real" where
  "interpolate_sales bsr tbl =
     (if bsr \<le> 0 then Inr 0
      else let bsr_points = sort (map fst tbl)
           in if bsr_points = [] then Inl IndexError
              else if bsr < hd bsr_points then
                (case dict_item tbl (hd bsr_points) of
                   Inl e \<Rightarrow> Inl e
                 | Inr known_sales \<Rightarrow>
                     extrapolate_high_performance bsr (hd bsr_points) known_sales)
              else if last bsr_points < bsr then
                (case dict_item tbl (last bsr_points) of
                   Inl e \<Rightarrow> Inl e
                 | Inr known_sales \<Rightarrow>
                     extrapolate_low_performance bsr (last bsr_points) known_sales)
              else interpolate_loop bsr tbl bsr_points)"

subsection \<open>\<^verbatim>\<open>calculate_sales_estimates\<close>\<close>

text \<open>
  Any exception of the body is caught and answered by \<^verbatim>\<open>(0.0, 0.0)\<close>. The defaults of
  the source are \<^verbatim>\<open>book_type='ebook'\<close> and \<^verbatim>\<open>marketplace='amazon.com'\<close>.
\<close>

definition calculate_sales_estimates :: "int \<Rightarrow> string \<Rightarrow> string \<Rightarrow> real \<times> real" where
  "calculate_sales_estimates bsr book_type marketplace =
     (case select_table book_type marketplace of
        Inl e \<Rightarrow> (0, 0)
      | Inr book_type_table \<Rightarrow>
          (case interpolate_sales bsr book_type_table of
             Inl e \<Rightarrow> (0, 0)
           | Inr daily_sales \<Rightarrow>
               (let monthly_sales = daily_sales * 30
                in (py_round2 daily_sales, py_round2 monthly_sales))))"

subsection \<open>\<^verbatim>\<open>get_bsr_for_target_sales\<close>\<close>



subsection \<open>\<^verbatim>\<open>get_sales_trend_analysis\<close>\<close>

text \<open>
  An entry of \<^verbatim>\<open>bsr_history\<close> is a dict with the keys \<^verbatim>\<open>'timestamp'\<close> and
  \<^verbatim>\<open>'rank'\<close> and, optionally, \<^verbatim>\<open>'book_type'\<close> and \<^verbatim>\<open>'marketplace'\<close> (read with
  \<^verbatim>\<open>record.get(key, default)\<close>). Timestamps are any totally ordered values; \<open>int\<close> here.
\<close>

record bsr_record =
  timestamp :: int
  rank :: int
  book_type :: "string option"
  marketplace :: "string option"





subsection \<open>The keyword scorer: \<^verbatim>\<open>_estimate_search_volume\<close> and \<^verbatim>\<open>_is_data_fresh\<close>\<close>










text \<open>
  \<^verbatim>\<open>
  if not last_updated: return False
  age = datetime.utcnow() - last_updated
  return age.days < max_age_days
  \<close>
  A \<^verbatim>\<open>datetime\<close> is its number of microseconds since a fixed epoch, \<^verbatim>\<open>None\<close> is
  \<open>None\<close>; the \<^verbatim>\<open>days\<close> field of a \<^verbatim>\<open>timedelta\<close> is the floor of the difference in
  days (a negative difference has negative \<^verbatim>\<open>days\<close>). \<open>now\<close> is the value of
  \<^verbatim>\<open>datetime.utcnow()\<close>; the default of \<^verbatim>\<open>max_age_days\<close> is 7.
\<close>

definition usec_per_day :: int where
  "usec_per_day = 86400000000"

definition is_data_fresh :: "int \<Rightarrow> int option \<Rightarrow> int \<Rightarrow> bool" where
  "is_data_fresh now last_updated max_age_days =
     (case last_updated of
        None \<Rightarrow> False
      | Some t \<Rightarrow> (now - t) div usec_per_day < max_age_days)"

subsection \<open>Auxiliary notions for the proofs\<close>

text \<open>
  The invariants of a calibration table: at least two anchors, ranks strictly increasing
  and at least 1, sales not increasing and at least \<open>0.001\<close> (so that the floor under the
  logarithm is inactive).
\<close>

definition wf_table :: "conversion_table \<Rightarrow> bool" where
  "wf_table tbl \<longleftrightarrow>
     2 \<le> length tbl \<and>
     sorted_wrt (\<lambda>p q. fst p < fst q \<and> snd q \<le> snd p) tbl \<and>
     (\<forall>p\<in>set tbl. 1 \<le> fst p \<and> 1 / 1000 \<le> snd p)"

definition all_tables :: "conversion_table list" where
  "all_tables = [com_ebook, com_paperback, com_hardcover, uk_ebook, uk_paperback, uk_hardcover]"





section \<open>Properties\<close>

subsection \<open>Rounding to two decimals\<close>

lemma py_round2_mono: "x \<le> y \<Longrightarrow> py_round2 x \<le> py_round2 y"
proof -
  assume xy: "x \<le> y"
  have f: "\<lfloor>x * 100\<rfloor> \<le> \<lfloor>y * 100\<rfloor>" using xy by (simp add: floor_mono)
  show ?thesis
  proof (cases "\<lfloor>x * 100\<rfloor> = \<lfloor>y * 100\<rfloor>")
    case True
    then show ?thesis using xy by (auto simp: py_round2_def Let_def)
  next
    case False
    with f have "\<lfloor>x * 100\<rfloor> + 1 \<le> \<lfloor>y * 100\<rfloor>" by simp
    then have "real_of_int (\<lfloor>x * 100\<rfloor> + 1) \<le> real_of_int \<lfloor>y * 100\<rfloor>" by linarith
    then show ?thesis by (auto simp: py_round2_def Let_def)
  qed
qed


lemma py_round2_of_int: "py_round2 (real_of_int n / 100) = real_of_int n / 100"
  by (simp add: py_round2_def Let_def)

subsection \<open>One bracket of the log-log interpolation\<close>

lemma log_interpolate_eq:
  assumes "0 < lo" "lo < hi" "lo \<le> bsr" "1 / 1000 \<le> vhi" "1 / 1000 \<le> vlo"
  shows "log_interpolate bsr lo hi vlo vhi =
           Inr (10 powr (log 10 vlo + (log 10 (real_of_int bsr) - log 10 (real_of_int lo))
                  / (log 10 (real_of_int hi) - log 10 (real_of_int lo)) * (log 10 vhi - log 10 vlo)))"
proof -
  have "log 10 (real_of_int lo) < log 10 (real_of_int hi)" using assms by simp
  then have "log 10 (real_of_int hi) \<noteq> log 10 (real_of_int lo)" by simp
  moreover have "0 < hi" "0 < bsr" using assms by simp_all
  moreover have "max vlo (1 / 1000) = vlo" "max vhi (1 / 1000) = vhi" using assms by simp_all
  ultimately show ?thesis using assms by (simp add: log_interpolate_def Let_def)
qed

lemma log_interpolate_mono:
  assumes "0 < lo" "lo < hi" "lo \<le> r1" "r1 \<le> r2" "r2 \<le> hi" "1 / 1000 \<le> vhi" "vhi \<le> vlo"
  shows "\<exists>y1 y2. log_interpolate r1 lo hi vlo vhi = Inr y1 \<and>
                 log_interpolate r2 lo hi vlo vhi = Inr y2 \<and> vhi \<le> y2 \<and> y2 \<le> y1 \<and> y1 \<le> vlo"
proof -
  define L where "L = log 10 (real_of_int lo)"
  define H where "H = log 10 (real_of_int hi)"
  define a where "a = log 10 vlo"
  define b where "b = log 10 vhi"
  define t where "t r = (log 10 (real_of_int r) - L) / (H - L)" for r
  have LH: "L < H" unfolding L_def H_def using assms by simp
  have ba: "b \<le> a" unfolding a_def b_def using assms by simp
  have t1: "0 \<le> t r1" unfolding t_def L_def using LH assms by (simp add: L_def)
  have t12: "t r1 \<le> t r2" unfolding t_def using LH assms by (simp add: divide_right_mono)
  have t2: "t r2 \<le> 1" unfolding t_def H_def using LH assms by (simp add: H_def)
  have m1: "t r2 * (b - a) \<le> t r1 * (b - a)" using t12 ba by (simp add: mult_right_mono_neg)
  have m2: "t r1 * (b - a) \<le> 0" using t1 ba by (simp add: mult_nonneg_nonpos)
  have m3: "1 * (b - a) \<le> t r2 * (b - a)" using t2 ba by (intro mult_right_mono_neg) simp_all
  have e1: "log_interpolate r1 lo hi vlo vhi = Inr (10 powr (a + t r1 * (b - a)))"
    unfolding a_def b_def t_def L_def H_def using assms by (intro log_interpolate_eq) simp_all
  have e2: "log_interpolate r2 lo hi vlo vhi = Inr (10 powr (a + t r2 * (b - a)))"
    unfolding a_def b_def t_def L_def H_def using assms by (intro log_interpolate_eq) simp_all
  have va: "10 powr a = vlo" unfolding a_def using assms by simp
  have vb: "10 powr b = vhi" unfolding b_def using assms by simp
  have "10 powr b \<le> 10 powr (a + t r2 * (b - a))" using m3 by simp
  moreover have "10 powr (a + t r2 * (b - a)) \<le> 10 powr (a + t r1 * (b - a))" using m1 by simp
  moreover have "10 powr (a + t r1 * (b - a)) \<le> 10 powr a" using m2 by simp
  ultimately show ?thesis using e1 e2 va vb by simp
qed

lemma log_interpolate_lower:
  assumes "0 < lo" "lo < hi" "1 / 1000 \<le> vhi" "1 / 1000 \<le> vlo"
  shows "log_interpolate lo lo hi vlo vhi = Inr vlo"
  using assms by (simp add: log_interpolate_eq)

lemma log_interpolate_upper:
  assumes "0 < lo" "lo < hi" "1 / 1000 \<le> vhi" "1 / 1000 \<le> vlo"
  shows "log_interpolate hi lo hi vlo vhi = Inr vhi"
proof -
  have "log 10 (real_of_int lo) < log 10 (real_of_int hi)" using assms by simp
  then have "log 10 (real_of_int hi) \<noteq> log 10 (real_of_int lo)" by simp
  then show ?thesis using assms by (simp add: log_interpolate_eq)
qed

subsection \<open>The bracket loop on a well-formed table\<close>

lemma wf_keys_sorted: "wf_table tbl \<Longrightarrow> sorted_wrt (<) (map fst tbl)"
  unfolding wf_table_def sorted_wrt_map by (auto elim: sorted_wrt_mono_rel[rotated])

lemma wf_sort_keys: "wf_table tbl \<Longrightarrow> sort (map fst tbl) = map fst tbl"
  using wf_keys_sorted[of tbl] by (simp add: sorted_sort_id strict_sorted_imp_sorted)

lemma wf_dict_item: "wf_table tbl \<Longrightarrow> p \<in> set tbl \<Longrightarrow> dict_item tbl (fst p) = Inr (snd p)"
proof -
  assume wf: "wf_table tbl" and p: "p \<in> set tbl"
  have "distinct (map fst tbl)" using wf_keys_sorted[OF wf] by (simp add: strict_sorted_iff)
  then have "map_of tbl (fst p) = Some (snd p)" using p by (cases p) simp
  then show ?thesis by (simp add: dict_item_def)
qed

lemma sorted_last_le:
  "sorted_wrt (\<lambda>p q. fst p < fst q \<and> snd q \<le> snd p) ((p :: int \<times> real) # ps) \<Longrightarrow>
     fst p \<le> fst (last (p # ps)) \<and> snd (last (p # ps)) \<le> snd p"
proof (cases "ps = []")
  case True
  then show ?thesis by simp
next
  case False
  assume "sorted_wrt (\<lambda>p q. fst p < fst q \<and> snd q \<le> snd p) (p # ps)"
  then have "\<forall>x\<in>set ps. fst p < fst x \<and> snd x \<le> snd p" by simp
  moreover have "last ps \<in> set ps" using False by simp
  ultimately have "fst p < fst (last ps) \<and> snd (last ps) \<le> snd p" by blast
  then show ?thesis using False by simp
qed

lemma interpolate_loop_mono:
  assumes "sorted_wrt (\<lambda>p q. fst p < fst q \<and> snd q \<le> snd p) ps"
    and "\<forall>p\<in>set ps. dict_item tbl (fst p) = Inr (snd p) \<and> 1 \<le> fst p \<and> 1 / 1000 \<le> snd p"
    and "2 \<le> length ps" and "fst (hd ps) \<le> r1" and "r1 \<le> r2" and "r2 \<le> fst (last ps)"
  shows "\<exists>y1 y2. interpolate_loop r1 tbl (map fst ps) = Inr y1 \<and>
                 interpolate_loop r2 tbl (map fst ps) = Inr y2 \<and>
                 snd (last ps) \<le> y2 \<and> y2 \<le> y1 \<and> y1 \<le> snd (hd ps)"
  using assms
proof (induction ps arbitrary: r1 r2 rule: induct_list012)
  case 1
  then show ?case by simp
next
  case (2 x)
  then show ?case by simp
next
  case (3 p q rest)
  have srt: "sorted_wrt (\<lambda>p q. fst p < fst q \<and> snd q \<le> snd p) (q # rest)"
    using "3.prems"(1) by simp
  have pq: "fst p < fst q" "snd q \<le> snd p" using "3.prems"(1) by simp_all
  have dp: "dict_item tbl (fst p) = Inr (snd p)" "1 \<le> fst p" "1 / 1000 \<le> snd p"
    and dq: "dict_item tbl (fst q) = Inr (snd q)" "1 \<le> fst q" "1 / 1000 \<le> snd q"
    using "3.prems"(2) by simp_all
  have rest_all: "\<forall>p\<in>set (q # rest). dict_item tbl (fst p) = Inr (snd p) \<and> 1 \<le> fst p \<and> 1 / 1000 \<le> snd p"
    using "3.prems"(2) by simp
  have lastq: "snd (last (q # rest)) \<le> snd q" "fst q \<le> fst (last (q # rest))"
    using sorted_last_le[OF srt] by simp_all
  have lo: "fst p \<le> r1" using "3.prems"(4) by simp
  have hi: "r2 \<le> fst (last (q # rest))" using "3.prems"(6) by simp
  have first: "interpolate_loop r tbl (map fst (p # q # rest)) =
                 log_interpolate r (fst p) (fst q) (snd p) (snd q)"
    if "fst p \<le> r" "r \<le> fst q" for r
    using that dp dq by simp
  have later: "interpolate_loop r tbl (map fst (p # q # rest)) =
                 interpolate_loop r tbl (map fst (q # rest))"
    if "fst q < r" for r
    using that by simp
  have tail: "\<exists>y1 y2. interpolate_loop s1 tbl (map fst (q # rest)) = Inr y1 \<and>
                 interpolate_loop s2 tbl (map fst (q # rest)) = Inr y2 \<and>
                 snd (last (q # rest)) \<le> y2 \<and> y2 \<le> y1 \<and> y1 \<le> snd q"
    if "fst q < s1" "s1 \<le> s2" "s2 \<le> fst (last (q # rest))" for s1 s2
  proof -
    have "rest \<noteq> []" using that by auto
    then have "2 \<le> length (q # rest)" by (cases rest) simp_all
    then show ?thesis using "3.IH"(2)[OF srt rest_all, of s1 s2] that by simp
  qed
  consider "r2 \<le> fst q" | "r1 \<le> fst q" "fst q < r2" | "fst q < r1" by linarith
  then show ?case
  proof cases
    case 1
    obtain y1 y2 where "log_interpolate r1 (fst p) (fst q) (snd p) (snd q) = Inr y1"
      "log_interpolate r2 (fst p) (fst q) (snd p) (snd q) = Inr y2"
      "snd q \<le> y2" "y2 \<le> y1" "y1 \<le> snd p"
      using log_interpolate_mono[of "fst p" "fst q" r1 r2 "snd q" "snd p"] dp dq pq lo 1 "3.prems"(5)
      by auto
    then show ?thesis using first[of r1] first[of r2] lo 1 "3.prems"(5) lastq by auto
  next
    case 2
    obtain y1 where y1: "log_interpolate r1 (fst p) (fst q) (snd p) (snd q) = Inr y1"
      "snd q \<le> y1" "y1 \<le> snd p"
      using log_interpolate_mono[of "fst p" "fst q" r1 r1 "snd q" "snd p"] dp dq pq lo 2
      by auto
    obtain y2 where y2: "interpolate_loop r2 tbl (map fst (q # rest)) = Inr y2"
      "snd (last (q # rest)) \<le> y2" "y2 \<le> snd q"
      using tail[of r2 r2] 2 hi by auto
    show ?thesis using y1 y2 first[of r1] later[of r2] lo 2 by auto
  next
    case 3
    obtain y1 y2 where "interpolate_loop r1 tbl (map fst (q # rest)) = Inr y1"
      "interpolate_loop r2 tbl (map fst (q # rest)) = Inr y2"
      "snd (last (q # rest)) \<le> y2" "y2 \<le> y1" "y1 \<le> snd q"
      using tail[of r1 r2] 3 hi "3.prems"(5) by auto
    then show ?thesis using later[of r1] later[of r2] 3 "3.prems"(5) pq by auto
  qed
qed

subsection \<open>Monotonicity of the interpolation\<close>

lemma wf_nonempty: "wf_table tbl \<Longrightarrow> tbl \<noteq> []"
  by (auto simp: wf_table_def)

lemma wf_hd_last:
  assumes "wf_table tbl"
  shows "hd tbl \<in> set tbl" "last tbl \<in> set tbl"
    "fst (hd tbl) \<le> fst (last tbl)" "snd (last tbl) \<le> snd (hd tbl)"
proof -
  have ne: "tbl \<noteq> []" using assms by (rule wf_nonempty)
  show "hd tbl \<in> set tbl" "last tbl \<in> set tbl" using ne by simp_all
  obtain p ps where tbl: "tbl = p # ps" using ne by (cases tbl) auto
  have "sorted_wrt (\<lambda>p q. fst p < fst q \<and> snd q \<le> snd p) (p # ps)"
    using assms by (simp add: wf_table_def tbl)
  from sorted_last_le[OF this]
  show "fst (hd tbl) \<le> fst (last tbl)" "snd (last tbl) \<le> snd (hd tbl)" by (simp_all add: tbl)
qed

lemma extrapolate_high_val:
  assumes "0 < bsr" "0 < known_bsr"
  shows "extrapolate_high_performance bsr known_bsr v =
           Inr (v * (real_of_int known_bsr / real_of_int bsr) powr (7 / 10))"
proof -
  have "\<not> real_of_int known_bsr / real_of_int bsr < 0" using assms by (simp add: not_less)
  then show ?thesis using assms unfolding extrapolate_high_performance_def Let_def by simp
qed

lemma extrapolate_low_val:
  assumes "0 < bsr" "0 < known_bsr"
  shows "extrapolate_low_performance bsr known_bsr v =
           Inr (v / (real_of_int bsr / real_of_int known_bsr) powr (8 / 10))"
proof -
  have pos: "0 < real_of_int bsr / real_of_int known_bsr" using assms by simp
  then have "\<not> real_of_int bsr / real_of_int known_bsr < 0" by (simp add: not_less)
  moreover have "(real_of_int bsr / real_of_int known_bsr) powr (8 / 10) \<noteq> 0"
    using pos assms by simp
  ultimately show ?thesis using assms unfolding extrapolate_low_performance_def Let_def by simp
qed

lemma interpolate_sales_high:
  assumes "wf_table tbl" "0 < r" "r < fst (hd tbl)"
  shows "interpolate_sales r tbl =
           Inr (snd (hd tbl) * (real_of_int (fst (hd tbl)) / real_of_int r) powr (7 / 10))"
proof -
  have ne: "tbl \<noteq> []" using assms(1) by (rule wf_nonempty)
  have "dict_item tbl (fst (hd tbl)) = Inr (snd (hd tbl))"
    using wf_dict_item[OF assms(1)] wf_hd_last(1)[OF assms(1)] by simp
  moreover have "0 < fst (hd tbl)" using assms by simp
  ultimately show ?thesis using assms ne
    by (simp add: interpolate_sales_def wf_sort_keys hd_map Let_def extrapolate_high_val)
qed

lemma interpolate_sales_low:
  assumes "wf_table tbl" "fst (last tbl) < r"
  shows "interpolate_sales r tbl =
           Inr (snd (last tbl) / (real_of_int r / real_of_int (fst (last tbl))) powr (8 / 10))"
proof -
  have ne: "tbl \<noteq> []" using assms(1) by (rule wf_nonempty)
  have k: "1 \<le> fst (hd tbl)" "1 \<le> fst (last tbl)"
    using assms(1) wf_hd_last(1,2)[OF assms(1)] by (auto simp: wf_table_def)
  have "dict_item tbl (fst (last tbl)) = Inr (snd (last tbl))"
    using wf_dict_item[OF assms(1)] wf_hd_last(2)[OF assms(1)] by simp
  moreover have "\<not> r < fst (hd tbl)" using wf_hd_last(3)[OF assms(1)] assms(2) by simp
  moreover have "0 < r" "0 < fst (last tbl)" using assms k by simp_all
  ultimately show ?thesis using assms ne
    by (simp add: interpolate_sales_def wf_sort_keys hd_map last_map Let_def extrapolate_low_val)
qed

lemma interpolate_sales_mid:
  assumes "wf_table tbl" "fst (hd tbl) \<le> r" "r \<le> fst (last tbl)"
  shows "interpolate_sales r tbl = interpolate_loop r tbl (map fst tbl)"
proof -
  have ne: "tbl \<noteq> []" using assms(1) by (rule wf_nonempty)
  have "1 \<le> fst (hd tbl)"
    using assms(1) wf_hd_last(1)[OF assms(1)] by (auto simp: wf_table_def)
  then have "0 < r" using assms by simp
  then show ?thesis using assms ne
    by (simp add: interpolate_sales_def wf_sort_keys hd_map last_map Let_def)
qed

lemma interpolate_loop_wf:
  assumes "wf_table tbl" "fst (hd tbl) \<le> r1" "r1 \<le> r2" "r2 \<le> fst (last tbl)"
  shows "\<exists>y1 y2. interpolate_sales r1 tbl = Inr y1 \<and> interpolate_sales r2 tbl = Inr y2 \<and>
                 snd (last tbl) \<le> y2 \<and> y2 \<le> y1 \<and> y1 \<le> snd (hd tbl)"
proof -
  have "\<forall>p\<in>set tbl. dict_item tbl (fst p) = Inr (snd p) \<and> 1 \<le> fst p \<and> 1 / 1000 \<le> snd p"
    using assms(1) wf_dict_item[OF assms(1)] by (auto simp: wf_table_def)
  moreover have "sorted_wrt (\<lambda>p q. fst p < fst q \<and> snd q \<le> snd p) tbl" "2 \<le> length tbl"
    using assms(1) by (simp_all add: wf_table_def)
  ultimately show ?thesis
    using interpolate_loop_mono[of tbl tbl r1 r2] assms
      interpolate_sales_mid[of tbl r1] interpolate_sales_mid[of tbl r2]
    by simp
qed

lemma interpolate_sales_mono:
  assumes wf: "wf_table tbl" and pos: "0 < r1" and le: "r1 \<le> r2"
  shows "\<exists>y1 y2. interpolate_sales r1 tbl = Inr y1 \<and> interpolate_sales r2 tbl = Inr y2 \<and>
                 0 < y2 \<and> y2 \<le> y1"
proof -
  define k0 where "k0 = fst (hd tbl)"
  define v0 where "v0 = snd (hd tbl)"
  define kn where "kn = fst (last tbl)"
  define vn where "vn = snd (last tbl)"
  have k: "1 \<le> k0" "1 \<le> kn" "k0 \<le> kn" and v: "1 / 1000 \<le> vn" "vn \<le> v0"
    using wf wf_hd_last[OF wf] by (auto simp: wf_table_def k0_def kn_def vn_def v0_def)
  define H where "H r = v0 * (real_of_int k0 / real_of_int r) powr (7 / 10)" for r
  define W where "W r = vn / (real_of_int r / real_of_int kn) powr (8 / 10)" for r
  have high: "interpolate_sales r tbl = Inr (H r)" if "0 < r" "r < k0" for r
    using interpolate_sales_high[OF wf, of r] that by (simp add: k0_def v0_def H_def)
  have low: "interpolate_sales r tbl = Inr (W r)" if "kn < r" for r
    using interpolate_sales_low[OF wf, of r] that by (simp add: kn_def vn_def W_def)
  have mid: "\<exists>y1 y2. interpolate_sales s1 tbl = Inr y1 \<and> interpolate_sales s2 tbl = Inr y2 \<and>
                 vn \<le> y2 \<and> y2 \<le> y1 \<and> y1 \<le> v0"
    if "k0 \<le> s1" "s1 \<le> s2" "s2 \<le> kn" for s1 s2
    using interpolate_loop_wf[OF wf, of s1 s2] that by (simp add: k0_def kn_def vn_def v0_def)
  have high_ge: "v0 \<le> H r" if "0 < r" "r < k0" for r
  proof -
    have "1 \<le> real_of_int k0 / real_of_int r" using that by simp
    then have "1 \<le> (real_of_int k0 / real_of_int r) powr (7 / 10)"
      by (simp add: ge_one_powr_ge_zero)
    moreover have "0 \<le> v0" using v by simp
    ultimately show ?thesis unfolding H_def by (simp add: mult_le_cancel_left1)
  qed
  have low_le: "W r \<le> vn" "0 < W r" if "kn < r" for r
  proof -
    have "1 \<le> real_of_int r / real_of_int kn" using that k by simp
    then have p: "1 \<le> (real_of_int r / real_of_int kn) powr (8 / 10)"
      by (simp add: ge_one_powr_ge_zero)
    have "0 < vn" using v by simp
    then show "W r \<le> vn" using p unfolding W_def by (simp add: divide_le_eq)
    have "0 < (real_of_int r / real_of_int kn) powr (8 / 10)" using p by linarith
    then show "0 < W r" using \<open>0 < vn\<close> unfolding W_def by simp
  qed
  have vpos: "0 < vn" using v by simp
  consider (hh) "r2 < k0" | (hm) "r1 < k0" "k0 \<le> r2" "r2 \<le> kn" | (hl) "r1 < k0" "kn < r2"
    | (mm) "k0 \<le> r1" "r2 \<le> kn" | (ml) "k0 \<le> r1" "r1 \<le> kn" "kn < r2" | (ll) "kn < r1"
    by linarith
  then show ?thesis
  proof cases
    case hh
    have "real_of_int k0 / real_of_int r2 \<le> real_of_int k0 / real_of_int r1"
      using pos le k by (simp add: frac_le)
    moreover have "0 \<le> real_of_int k0 / real_of_int r2" using pos le k by simp
    ultimately have "(real_of_int k0 / real_of_int r2) powr (7 / 10)
        \<le> (real_of_int k0 / real_of_int r1) powr (7 / 10)"
      by (intro powr_mono2) simp_all
    then have "H r2 \<le> H r1"
      unfolding H_def using v by (intro mult_left_mono) simp_all
    moreover have "0 < H r2" using high_ge[of r2] v hh pos le by linarith
    moreover have "interpolate_sales r1 tbl = Inr (H r1)" "interpolate_sales r2 tbl = Inr (H r2)"
      using high[of r1] high[of r2] hh pos le by simp_all
    ultimately show ?thesis by blast
  next
    case hm
    obtain y2 where y2: "interpolate_sales r2 tbl = Inr y2" "vn \<le> y2" "y2 \<le> v0"
      using mid[of r2 r2] hm by auto
    have "interpolate_sales r1 tbl = Inr (H r1)" using high[of r1] hm pos by simp
    moreover have "y2 \<le> H r1" using high_ge[of r1] hm pos y2 by linarith
    moreover have "0 < y2" using y2 vpos by linarith
    ultimately show ?thesis using y2 by blast
  next
    case hl
    have "interpolate_sales r1 tbl = Inr (H r1)" using high[of r1] hl pos by simp
    moreover have "interpolate_sales r2 tbl = Inr (W r2)" using low[of r2] hl by simp
    moreover have "W r2 \<le> H r1" using high_ge[of r1] low_le(1)[of r2] hl pos v by linarith
    moreover have "0 < W r2" using low_le(2)[of r2] hl by simp
    ultimately show ?thesis by blast
  next
    case mm
    obtain y1 y2 where y: "interpolate_sales r1 tbl = Inr y1" "interpolate_sales r2 tbl = Inr y2"
      "vn \<le> y2" "y2 \<le> y1"
      using mid[of r1 r2] mm le by auto
    moreover have "0 < y2" using y vpos by linarith
    ultimately show ?thesis by blast
  next
    case ml
    obtain y1 where y1: "interpolate_sales r1 tbl = Inr y1" "vn \<le> y1" "y1 \<le> v0"
      using mid[of r1 r1] ml by auto
    moreover have "interpolate_sales r2 tbl = Inr (W r2)" using low[of r2] ml by simp
    moreover have "W r2 \<le> y1" using low_le(1)[of r2] ml y1 by linarith
    moreover have "0 < W r2" using low_le(2)[of r2] ml by simp
    ultimately show ?thesis by blast
  next
    case ll
    have "real_of_int r1 / real_of_int kn \<le> real_of_int r2 / real_of_int kn"
      using le k by (simp add: divide_right_mono)
    moreover have rp: "0 < real_of_int r1 / real_of_int kn" using pos k by simp
    ultimately have ab: "(real_of_int r1 / real_of_int kn) powr (8 / 10)
        \<le> (real_of_int r2 / real_of_int kn) powr (8 / 10)"
      by (intro powr_mono2) simp_all
    have a: "0 < (real_of_int r1 / real_of_int kn) powr (8 / 10)"
      using pos k by simp
    have "0 \<le> vn" using v by simp
    then have "W r2 \<le> W r1"
      unfolding W_def using ab a by (intro frac_le) simp_all
    moreover have "interpolate_sales r1 tbl = Inr (W r1)" "interpolate_sales r2 tbl = Inr (W r2)"
      using low[of r1] low[of r2] ll le by simp_all
    moreover have "0 < W r2" using low_le(2)[of r2] ll le by simp
    ultimately show ?thesis by blast
  qed
qed

subsection \<open>The six tables and the values at their anchors\<close>

lemma wf_com_ebook: "wf_table com_ebook"
  by (simp add: wf_table_def com_ebook_def)

lemma wf_com_paperback: "wf_table com_paperback"
  by (simp add: wf_table_def com_paperback_def)

lemma wf_com_hardcover: "wf_table com_hardcover"
  by (simp add: wf_table_def com_hardcover_def)

lemma wf_uk_ebook: "wf_table uk_ebook"
  by (simp add: wf_table_def uk_ebook_def)

lemma wf_uk_paperback: "wf_table uk_paperback"
  by (simp add: wf_table_def uk_paperback_def)

lemma wf_uk_hardcover: "wf_table uk_hardcover"
  by (simp add: wf_table_def uk_hardcover_def)

lemma wf_all_tables: "tbl \<in> set all_tables \<Longrightarrow> wf_table tbl"
  unfolding all_tables_def
  using wf_com_ebook wf_com_paperback wf_com_hardcover wf_uk_ebook wf_uk_paperback wf_uk_hardcover
  by auto

lemma sorted_key_bounds:
  "sorted_wrt (\<lambda>p q. fst p < fst q \<and> snd q \<le> snd p) ps \<Longrightarrow> (x :: int \<times> real) \<in> set ps \<Longrightarrow>
     fst (hd ps) \<le> fst x \<and> fst x \<le> fst (last ps)"
proof (induction ps)
  case Nil
  then show ?case by simp
next
  case (Cons p ps)
  show ?case
  proof (cases "x = p")
    case True
    then show ?thesis using sorted_last_le[OF Cons.prems(1)] by simp
  next
    case False
    then have x: "x \<in> set ps" using Cons.prems(2) by simp
    then have "ps \<noteq> []" by auto
    moreover have "fst p < fst x" using Cons.prems(1) x by auto
    moreover have "fst x \<le> fst (last ps)" using Cons.IH Cons.prems(1) x by simp
    ultimately show ?thesis by simp
  qed
qed

lemma select_table_com: "select_table f ''amazon.com'' =
   Inr (if f = ''paperback'' then com_paperback else if f = ''hardcover'' then com_hardcover else com_ebook)"
  by (simp add: select_table_def dict_item_def dict_get_def conversion_tables_def)

lemma select_table_uk: "select_table f ''amazon.co.uk'' =
   Inr (if f = ''paperback'' then uk_paperback else if f = ''hardcover'' then uk_hardcover else uk_ebook)"
  by (simp add: select_table_def dict_item_def dict_get_def conversion_tables_def)

lemma select_table_other: "m \<noteq> ''amazon.com'' \<Longrightarrow> m \<noteq> ''amazon.co.uk'' \<Longrightarrow>
   select_table f m = select_table f ''amazon.com''"
  by (simp add: select_table_def dict_item_def dict_get_def conversion_tables_def)

lemma select_table_total: "\<exists>tbl. select_table f m = Inr tbl \<and> tbl \<in> set all_tables"
proof -
  consider "m = ''amazon.com''" | "m = ''amazon.co.uk''" | "m \<noteq> ''amazon.com''" "m \<noteq> ''amazon.co.uk''"
    by blast
  then show ?thesis
    by cases (simp_all add: select_table_com select_table_uk select_table_other all_tables_def)
qed

lemma interpolate_loop_anchor:
  assumes "sorted_wrt (\<lambda>p q. fst p < fst q \<and> snd q \<le> snd p) ps"
    and "\<forall>p\<in>set ps. dict_item tbl (fst p) = Inr (snd p) \<and> 1 \<le> fst p \<and> 1 / 1000 \<le> snd p"
    and "2 \<le> length ps" and "a \<in> set ps"
  shows "interpolate_loop (fst a) tbl (map fst ps) = Inr (snd a)"
  using assms
proof (induction ps rule: induct_list012)
  case 1
  then show ?case by simp
next
  case (2 x)
  then show ?case by simp
next
  case (3 p q rest)
  have pq: "fst p < fst q" using "3.prems"(1) by simp
  have dp: "dict_item tbl (fst p) = Inr (snd p)" "1 \<le> fst p" "1 / 1000 \<le> snd p"
    and dq: "dict_item tbl (fst q) = Inr (snd q)" "1 \<le> fst q" "1 / 1000 \<le> snd q"
    using "3.prems"(2) by simp_all
  consider "a = p" | "a = q" | "a \<in> set rest" "a \<noteq> q" using "3.prems"(4) by auto
  then show ?case
  proof cases
    case 1
    then show ?thesis using pq dp dq by (simp add: log_interpolate_lower)
  next
    case 2
    then show ?thesis using pq dp dq by (simp add: log_interpolate_upper)
  next
    case 3
    then have lt: "fst q < fst a" using "3.prems"(1) by auto
    have "rest \<noteq> []" using 3 by auto
    then have "2 \<le> length (q # rest)" by (cases rest) simp_all
    then have "interpolate_loop (fst a) tbl (map fst (q # rest)) = Inr (snd a)"
      using "3.IH"(2) "3.prems" 3 by simp
    then show ?thesis using lt by simp
  qed
qed

lemma interpolate_sales_anchor:
  assumes wf: "wf_table tbl" and a: "(k, v) \<in> set tbl"
  shows "interpolate_sales k tbl = Inr v"
proof -
  have all: "\<forall>p\<in>set tbl. dict_item tbl (fst p) = Inr (snd p) \<and> 1 \<le> fst p \<and> 1 / 1000 \<le> snd p"
    using wf wf_dict_item[OF wf] by (auto simp: wf_table_def)
  have srt: "sorted_wrt (\<lambda>p q. fst p < fst q \<and> snd q \<le> snd p) tbl" and len: "2 \<le> length tbl"
    using wf by (simp_all add: wf_table_def)
  have "fst (hd tbl) \<le> k" "k \<le> fst (last tbl)"
    using sorted_key_bounds[OF srt a] by simp_all
  then have "interpolate_sales k tbl = interpolate_loop k tbl (map fst tbl)"
    by (rule interpolate_sales_mid[OF wf])
  also have "\<dots> = Inr v" using interpolate_loop_anchor[OF srt all len a] by simp
  finally show ?thesis .
qed

subsection \<open>The binary search\<close>



subsection \<open>Numeric bounds between the anchors\<close>







subsection \<open>From the interpolation to the returned pair\<close>

lemma estimates_of_interpolation:
  assumes "select_table f m = Inr tbl" "interpolate_sales r tbl = Inr d"
  shows "calculate_sales_estimates r f m = (py_round2 d, py_round2 (d * 30))"
  using assms by (simp add: calculate_sales_estimates_def)

lemma interpolate_sales_total:
  "\<exists>tbl d. select_table f m = Inr tbl \<and> tbl \<in> set all_tables \<and> interpolate_sales r tbl = Inr d \<and> 0 \<le> d"
proof -
  obtain tbl where t: "select_table f m = Inr tbl" "tbl \<in> set all_tables"
    using select_table_total by blast
  show ?thesis
  proof (cases "0 < r")
    case True
    then obtain y where "interpolate_sales r tbl = Inr y" "0 < y"
      using interpolate_sales_mono[OF wf_all_tables[OF t(2)], of r r] by auto
    then show ?thesis using t by auto
  next
    case False
    then have "interpolate_sales r tbl = Inr 0" by (simp add: interpolate_sales_def)
    then show ?thesis using t by auto
  qed
qed






section \<open>The claims\<close>

subsection \<open>C1: the daily estimate does not increase with the rank\<close>

text \<open>
  Claim C1. For two ranks \<open>r1 < r2\<close> and the same format and market, the daily estimate
  at \<open>r1\<close> is at least the daily estimate at \<open>r2\<close>. A rank is a positive integer (the
  contract of \<^verbatim>\<open>estimate\<close>); format and market are arbitrary strings, so the fallback
  tables are covered. The six tables start at the anchor 1, so a positive rank is never
  better than their first anchor; the second part of the theorem states the same
  monotonicity for the interpolation on any table that satisfies the invariants of a
  calibration table, where all three regions occur: ranks better than the first anchor
  (extrapolated with the exponent 0.7), ranks between two anchors (interpolated in log-log
  space) and ranks worse than the last anchor (extrapolated with the exponent 0.8).
\<close>

theorem daily_sales_monotone:
  assumes "0 < r1" "r1 < r2"
  shows "fst (calculate_sales_estimates r2 f m) \<le> fst (calculate_sales_estimates r1 f m) \<and>
         (wf_table tbl \<longrightarrow>
            (\<exists>y1 y2. interpolate_sales r1 tbl = Inr y1 \<and> interpolate_sales r2 tbl = Inr y2 \<and>
                     y2 \<le> y1))"
proof -
  obtain t where t: "select_table f m = Inr t" "t \<in> set all_tables"
    using select_table_total by blast
  obtain y1 y2 where y: "interpolate_sales r1 t = Inr y1" "interpolate_sales r2 t = Inr y2" "y2 \<le> y1"
    using interpolate_sales_mono[OF wf_all_tables[OF t(2)], of r1 r2] assms by auto
  have "fst (calculate_sales_estimates r2 f m) \<le> fst (calculate_sales_estimates r1 f m)"
    using t y by (simp add: calculate_sales_estimates_def py_round2_mono)
  moreover have "\<exists>y1 y2. interpolate_sales r1 tbl = Inr y1 \<and> interpolate_sales r2 tbl = Inr y2 \<and> y2 \<le> y1"
    if "wf_table tbl"
    using interpolate_sales_mono[OF that, of r1 r2] assms by auto
  ultimately show ?thesis by blast
qed

text \<open>
  The hypotheses of C1 hold at the ranks 3 and 5, which are both better than the first
  anchor of the two-point table \<open>[(10, 1500), (100, 300)]\<close>.
\<close>

theorem daily_sales_monotone_witness:
  "(0 :: int) < 3 \<and> (3 :: int) < 5 \<and> wf_table [(10, 1500), (100, 300)] \<and>
   fst (calculate_sales_estimates 5 ''ebook'' ''amazon.com'')
     \<le> fst (calculate_sales_estimates 3 ''ebook'' ''amazon.com'') \<and>
   (\<exists>y1 y2. interpolate_sales 3 [(10, 1500), (100, 300)] = Inr y1 \<and>
            interpolate_sales 5 [(10, 1500), (100, 300)] = Inr y2 \<and> y2 \<le> y1)"
proof -
  have h: "(0 :: int) < 3" "(3 :: int) < 5" by simp_all
  have w: "wf_table [(10, 1500), (100, 300)]" by (simp add: wf_table_def)
  show ?thesis
    using h w daily_sales_monotone[OF h, of "''ebook''" "''amazon.com''" "[(10, 1500), (100, 300)]"]
    by blast
qed

subsection \<open>C2: the rank returned for a sales target\<close>




subsection \<open>C3: the monthly value and thirty times the daily value\<close>



subsection \<open>C4: the estimate at an anchor of a table\<close>






subsection \<open>C5: the trend of a history of three or more entries\<close>








subsection \<open>C6: the trend of a history of two entries\<close>





subsection \<open>C7: an unknown format or market\<close>

text \<open>
  Claim C7 as stated: an unrecognized combination of format and market gives the result
  of the default table (ebook on amazon.com). It fails: the fallback works level by
  level. An unknown format on amazon.co.uk uses the ebook table of amazon.co.uk, and a
  known format on an unknown market uses that format's table of amazon.com.
\<close>

theorem fallback_counterexample:
  "calculate_sales_estimates 1 ''audiobook'' ''amazon.co.uk'' = (1500, 45000) \<and>
   calculate_sales_estimates 1 ''paperback'' ''amazon.de'' = (2000, 60000) \<and>
   calculate_sales_estimates 1 ''ebook'' ''amazon.com'' = (5000, 150000) \<and>
   calculate_sales_estimates 1 ''audiobook'' ''amazon.co.uk''
     \<noteq> calculate_sales_estimates 1 ''ebook'' ''amazon.com'' \<and>
   calculate_sales_estimates 1 ''paperback'' ''amazon.de''
     \<noteq> calculate_sales_estimates 1 ''ebook'' ''amazon.com''"
proof -
  have a: "select_table ''audiobook'' ''amazon.co.uk'' = Inr uk_ebook" by (simp add: select_table_uk)
  have b: "select_table ''ebook'' ''amazon.com'' = Inr com_ebook" by (simp add: select_table_com)
  have c: "select_table ''paperback'' ''amazon.de'' = Inr com_paperback"
    by (simp add: select_table_other select_table_com)
  have ia: "interpolate_sales 1 uk_ebook = Inr 1500"
    by (rule interpolate_sales_anchor[OF wf_uk_ebook]) (simp add: uk_ebook_def)
  have ib: "interpolate_sales 1 com_ebook = Inr 5000"
    by (rule interpolate_sales_anchor[OF wf_com_ebook]) (simp add: com_ebook_def)
  have ic: "interpolate_sales 1 com_paperback = Inr 2000"
    by (rule interpolate_sales_anchor[OF wf_com_paperback]) (simp add: com_paperback_def)
  show ?thesis
    using estimates_of_interpolation[OF a ia] estimates_of_interpolation[OF b ib]
      estimates_of_interpolation[OF c ic]
      py_round2_of_int[of 150000] py_round2_of_int[of 4500000]
      py_round2_of_int[of 500000] py_round2_of_int[of 15000000]
      py_round2_of_int[of 200000] py_round2_of_int[of 6000000]
    by simp
qed

text \<open>
  Claim C7, amended. An unknown market is replaced by amazon.com, and after that an
  unknown format is replaced by ebook, within the selected market; the estimate is the one
  of the replaced pair. A table is always found and the interpolation always returns a
  value, so the exception handler is never entered and no error is raised.
\<close>

theorem fallback_per_level:
  "calculate_sales_estimates r f m =
     calculate_sales_estimates r
       (if f = ''ebook'' \<or> f = ''paperback'' \<or> f = ''hardcover'' then f else ''ebook'')
       (if m = ''amazon.com'' \<or> m = ''amazon.co.uk'' then m else ''amazon.com'') \<and>
   (\<exists>tbl d. select_table f m = Inr tbl \<and> interpolate_sales r tbl = Inr d)"
proof -
  have "select_table f m = select_table
       (if f = ''ebook'' \<or> f = ''paperback'' \<or> f = ''hardcover'' then f else ''ebook'')
       (if m = ''amazon.com'' \<or> m = ''amazon.co.uk'' then m else ''amazon.com'')"
  proof -
    consider "m = ''amazon.com''" | "m = ''amazon.co.uk''" | "m \<noteq> ''amazon.com''" "m \<noteq> ''amazon.co.uk''"
      by blast
    then show ?thesis
      by cases (simp_all add: select_table_com select_table_uk select_table_other)
  qed
  then have "calculate_sales_estimates r f m =
     calculate_sales_estimates r
       (if f = ''ebook'' \<or> f = ''paperback'' \<or> f = ''hardcover'' then f else ''ebook'')
       (if m = ''amazon.com'' \<or> m = ''amazon.co.uk'' then m else ''amazon.com'')"
    unfolding calculate_sales_estimates_def by simp
  then show ?thesis using interpolate_sales_total[of f m r] by blast
qed

subsection \<open>C8: freshness of a timestamp\<close>

text \<open>
  Claim C8. For a timestamp \<open>t\<close> and a window of \<open>d\<close> days, the data is fresh exactly
  when the number of whole days elapsed since \<open>t\<close> is less than \<open>d\<close>, that is, when
  less than \<open>d\<close> full days have elapsed; under the default window of 7 days a timestamp
  one day old is fresh and one eight days old is not.
\<close>

theorem fresh_iff_whole_days:
  "(is_data_fresh now (Some t) d \<longleftrightarrow> (now - t) div usec_per_day < d) \<and>
   (is_data_fresh now (Some t) d \<longleftrightarrow> now - t < d * usec_per_day) \<and>
   is_data_fresh now (Some (now - usec_per_day)) 7 \<and>
   \<not> is_data_fresh now (Some (now - 8 * usec_per_day)) 7"
proof -
  have "(now - t) div usec_per_day < d \<longleftrightarrow> now - t < d * usec_per_day"
    unfolding usec_per_day_def by linarith
  then show ?thesis by (simp add: is_data_fresh_def) (simp add: usec_per_day_def)
qed

subsection \<open>C9: the search-volume estimate\<close>














subsection \<open>C10: a missing timestamp\<close>

text \<open>
  Claim C10. Without a timestamp (\<^verbatim>\<open>None\<close>) the data is stale, whatever the window.
\<close>

theorem missing_timestamp_is_stale: "\<not> is_data_fresh now None max_age_days"
  by (simp add: is_data_fresh_def)

end
